theory Spec2Isabelle
  imports Complex_Main "HOL-Library.Stream"
begin

section \<open>Python values, HTTP messages and the remote end\<close>

text \<open>
  The program is a single Python module, \<^verbatim>\<open>tenantfollow.py\<close>: it obtains an OAuth2 token,
  lists every user of the tenant through a paginated endpoint, and posts one follow-site
  request per user. Everything it handles after the token request is a value decoded from
  JSON, so the model's values are the Python values that \<^verbatim>\<open>resp.json()\<close> can produce.
  A \<^verbatim>\<open>dict\<close> is an association list that holds each key once, read with \<open>map_of\<close>;
  Python's \<^verbatim>\<open>None\<close> is \<open>JNull\<close>. A string is its UTF-8 bytes; where Python iterates a
  string, the bytes are grouped into code points. Calls into the HTTP library that raise
  without a response are one outcome, \<open>Fails\<close>, whatever the reason.
\<close>

datatype json =
    JNull
  | JBool bool
  | JInt int
  | JFloat rat
  | JStr string
  | JArr "json list"
  | JObj "(string \<times> json) list"

text \<open>The exceptions that can leave the module's functions, by their Python class.\<close>

datatype error =
    HTTPError int
  | JSONDecodeError
  | KeyError string
  | TypeError
  | AttributeError
  | RequestException

type_synonym headers = "(string \<times> string) list"

datatype http_method = GET | POST

datatype payload =
    NoData
  | FormData "(string \<times> string) list"
  | JsonDumps json

record request =
  http_method :: http_method
  url :: json
  headers :: headers
  data :: payload

text \<open>
  A response as the program reads it: \<^verbatim>\<open>status_code\<close>, \<^verbatim>\<open>text\<close>, and the result of
  \<^verbatim>\<open>json()\<close>, which is \<open>None\<close> when the body does not decode (the library then raises).
\<close>

record response =
  status_code :: int
  resp_text :: string
  json_body :: "json option"

text \<open>
  A call of \<^verbatim>\<open>requests.get\<close> or \<^verbatim>\<open>requests.post\<close> either returns a response or raises
  without one (no connection, a URL the library rejects). The remote end is the stream of
  these outcomes, one per call, in call order; the world also keeps the calls made and the
  lines printed.
\<close>

datatype outcome = Responds response | Fails

record world =
  replies :: "outcome stream"
  calls :: "request list"
  stdout :: "string list"

definition send :: "request \<Rightarrow> world \<Rightarrow> outcome \<times> world" where
  "send rq w = (shd (replies w), w\<lparr>replies := stl (replies w), calls := calls w @ [rq]\<rparr>)"

definition print :: "string \<Rightarrow> world \<Rightarrow> world" where
  "print line w = w\<lparr>stdout := stdout w @ [line]\<rparr>"

subsection \<open>Library operations the module calls\<close>

text \<open>
  \<^verbatim>\<open>Response.raise_for_status()\<close> of the HTTP library raises \<^verbatim>\<open>HTTPError\<close> for a status
  from 400 to 599 and returns for every other status.
\<close>

definition raise_for_status :: "response \<Rightarrow> error + unit" where
  "raise_for_status resp =
     (if 400 \<le> status_code resp \<and> status_code resp < 600
      then Inl (HTTPError (status_code resp)) else Inr ())"

definition resp_json :: "response \<Rightarrow> error + json" where
  "resp_json resp = (case json_body resp of None \<Rightarrow> Inl JSONDecodeError | Some d \<Rightarrow> Inr d)"

text \<open>\<^verbatim>\<open>d[k]\<close> with a string key: a missing key raises, and so does a value that is no dict.\<close>

fun subscript :: "json \<Rightarrow> string \<Rightarrow> error + json" where
  "subscript (JObj kv) k = (case map_of kv k of None \<Rightarrow> Inl (KeyError k) | Some v \<Rightarrow> Inr v)"
| "subscript _ k = Inl TypeError"

text \<open>\<^verbatim>\<open>d.get(k, default)\<close>: only a dict has the method.\<close>

fun dict_get :: "json \<Rightarrow> string \<Rightarrow> json \<Rightarrow> error + json" where
  "dict_get (JObj kv) k dflt = Inr (case map_of kv k of None \<Rightarrow> dflt | Some v \<Rightarrow> v)"
| "dict_get _ k dflt = Inl AttributeError"

text \<open>
  The code points of a string: the first byte of a UTF-8 sequence tells how many bytes the
  sequence has.
\<close>

definition utf8_width :: "char \<Rightarrow> nat" where
  "utf8_width c =
     (if (of_char c :: nat) < 0xC0 then 1
      else if (of_char c :: nat) < 0xE0 then 2
      else if (of_char c :: nat) < 0xF0 then 3 else 4)"

fun code_points :: "string \<Rightarrow> string list" where
  "code_points [] = []"
| "code_points (c # cs) =
     (c # take (utf8_width c - 1) cs) # code_points (drop (utf8_width c - 1) cs)"

text \<open>
  What \<^verbatim>\<open>list.extend\<close> appends: the elements of a list, the characters (code points) of a
  string, the keys of a dict; any other value is not iterable.
\<close>

fun py_iter :: "json \<Rightarrow> error + json list" where
  "py_iter (JArr xs) = Inr xs"
| "py_iter (JStr s) = Inr (map JStr (code_points s))"
| "py_iter (JObj kv) = Inr (map (\<lambda>p. JStr (fst p)) kv)"
| "py_iter _ = Inl TypeError"

text \<open>Truth value of a Python value, as \<^verbatim>\<open>while url:\<close> tests it.\<close>

fun truthy :: "json \<Rightarrow> bool" where
  "truthy JNull = False"
| "truthy (JBool b) = b"
| "truthy (JInt n) = (n \<noteq> 0)"
| "truthy (JFloat q) = (q \<noteq> 0)"
| "truthy (JStr s) = (s \<noteq> [])"
| "truthy (JArr xs) = (xs \<noteq> [])"
| "truthy (JObj kv) = (kv \<noteq> [])"

section \<open>Configuration\<close>

definition TENANT_ID :: string where "TENANT_ID = ''YOUR_TENANT_ID''"
definition CLIENT_ID :: string where "CLIENT_ID = ''YOUR_APPLICATION_ID''"
definition CLIENT_SECRET :: string where "CLIENT_SECRET = ''YOUR_APPLICATION_SECRET''"
definition GRAPH_BASE_URL :: string where "GRAPH_BASE_URL = ''https://graph.microsoft.com/beta''"
definition SPECIFIC_SITE_ID :: string where "SPECIFIC_SITE_ID = ''YOUR_SITE_ID''"

section \<open>The module's functions\<close>

subsection \<open>get_access_token\<close>

definition token_url :: string where
  "token_url = ''https://login.microsoftonline.com/'' @ TENANT_ID @ ''/oauth2/v2.0/token''"

definition token_data :: "(string \<times> string) list" where
  "token_data =
     [(''client_id'', CLIENT_ID),
      (''client_secret'', CLIENT_SECRET),
      (''scope'', ''https://graph.microsoft.com/.default''),
      (''grant_type'', ''client_credentials'')]"

definition token_request :: request where
  "token_request =
     \<lparr>http_method = POST, url = JStr token_url, headers = [], data = FormData token_data\<rparr>"

definition get_access_token :: "world \<Rightarrow> (error + json) \<times> world" where
  "get_access_token w =
     (case send token_request w of
        (Fails, w') \<Rightarrow> (Inl RequestException, w')
      | (Responds resp, w') \<Rightarrow>
          (case raise_for_status resp of
             Inl e \<Rightarrow> (Inl e, w')
           | Inr _ \<Rightarrow>
               (case resp_json resp of
                  Inl e \<Rightarrow> (Inl e, w')
                | Inr d \<Rightarrow> (subscript d ''access_token'', w'))))"

subsection \<open>paginated_get\<close>

definition get_request :: "json \<Rightarrow> headers \<Rightarrow> request" where
  "get_request u hdrs = \<lparr>http_method = GET, url = u, headers = hdrs, data = NoData\<rparr>"

text \<open>
  One turn of the \<^verbatim>\<open>while\<close> loop: the request, the status check, the decoding, the items
  that \<^verbatim>\<open>results.extend(data.get("value", []))\<close> appends and the next value of \<^verbatim>\<open>url\<close>.
\<close>

definition fetch_page :: "json \<Rightarrow> headers \<Rightarrow> world \<Rightarrow> (error + json list \<times> json) \<times> world" where
  "fetch_page u hdrs w =
     (case send (get_request u hdrs) w of
        (Fails, w') \<Rightarrow> (Inl RequestException, w')
      | (Responds resp, w') \<Rightarrow>
          (case raise_for_status resp of
             Inl e \<Rightarrow> (Inl e, w')
           | Inr _ \<Rightarrow>
               (case resp_json resp of
                  Inl e \<Rightarrow> (Inl e, w')
                | Inr d \<Rightarrow>
                    (case dict_get d ''value'' (JArr []) of
                       Inl e \<Rightarrow> (Inl e, w')
                     | Inr v \<Rightarrow>
                         (case py_iter v of
                            Inl e \<Rightarrow> (Inl e, w')
                          | Inr items \<Rightarrow>
                              (case dict_get d ''@odata.nextLink'' JNull of
                                 Inl e \<Rightarrow> (Inl e, w')
                               | Inr nxt \<Rightarrow> (Inr (items, nxt), w')))))))"

text \<open>
  The loop runs for as long as the remote end keeps sending a next link, so it need not
  return: \<open>None\<close> is the run that never leaves the loop.
\<close>

partial_function (option) paginated_loop ::
  "json \<Rightarrow> headers \<Rightarrow> json list \<Rightarrow> world \<Rightarrow> ((error + json list) \<times> world) option" where
  "paginated_loop u hdrs results w =
     (if truthy u then
        (case fetch_page u hdrs w of
           (Inl e, w') \<Rightarrow> Some (Inl e, w')
         | (Inr (items, nxt), w') \<Rightarrow> paginated_loop nxt hdrs (results @ items) w')
      else Some (Inr results, w))"

definition paginated_get ::
  "json \<Rightarrow> headers \<Rightarrow> world \<Rightarrow> ((error + json list) \<times> world) option" where
  "paginated_get u hdrs w = paginated_loop u hdrs [] w"

subsection \<open>follow_site\<close>

text \<open>
  The f-strings format a value with Python's \<^verbatim>\<open>str\<close>, a builtin: it is the parameter
  \<open>py_str\<close> of the functions that format values. The two marks are the UTF-8 bytes of
  U+2705 and U+274C.
\<close>

definition check_mark :: string where "check_mark = [CHR 0xE2, CHR 0x9C, CHR 0x85]"
definition cross_mark :: string where "cross_mark = [CHR 0xE2, CHR 0x9D, CHR 0x8C]"

definition follow_body :: "string \<Rightarrow> json" where
  "follow_body site_id = JObj [(''value'', JArr [JObj [(''id'', JStr site_id)]])]"

definition follow_request :: "(json \<Rightarrow> string) \<Rightarrow> json \<Rightarrow> string \<Rightarrow> headers \<Rightarrow> request" where
  "follow_request py_str user_id site_id hdrs =
     \<lparr>http_method = POST,
      url = JStr (GRAPH_BASE_URL @ ''/users/'' @ py_str user_id @ ''/followedSites/add''),
      headers = hdrs,
      data = JsonDumps (follow_body site_id)\<rparr>"

definition success_line :: "(json \<Rightarrow> string) \<Rightarrow> json \<Rightarrow> string \<Rightarrow> string" where
  "success_line py_str user_id site_id =
     ''    '' @ check_mark @ '' User '' @ py_str user_id @ '' now follows site '' @ site_id"

definition failure_line :: "(json \<Rightarrow> string) \<Rightarrow> json \<Rightarrow> string \<Rightarrow> string" where
  "failure_line py_str user_id body =
     ''    '' @ cross_mark @ '' Failed for '' @ py_str user_id @ '': '' @ body"

definition follow_site ::
  "(json \<Rightarrow> string) \<Rightarrow> json \<Rightarrow> string \<Rightarrow> headers \<Rightarrow> world \<Rightarrow> (error + unit) \<times> world" where
  "follow_site py_str user_id site_id hdrs w =
     (case send (follow_request py_str user_id site_id hdrs) w of
        (Fails, w') \<Rightarrow> (Inl RequestException, w')
      | (Responds follow_resp, w') \<Rightarrow>
          (if status_code follow_resp \<in> set [200, 204]
           then (Inr (), print (success_line py_str user_id site_id) w')
           else (Inr (), print (failure_line py_str user_id (resp_text follow_resp)) w')))"

subsection \<open>main\<close>

definition bearer_headers :: "(json \<Rightarrow> string) \<Rightarrow> json \<Rightarrow> headers" where
  "bearer_headers py_str access_token =
     [(''Authorization'', ''Bearer '' @ py_str access_token),
      (''Content-Type'', ''application/json'')]"

definition users_url :: string where
  "users_url = GRAPH_BASE_URL @ ''/users''"

definition found_line :: "(json \<Rightarrow> string) \<Rightarrow> json list \<Rightarrow> string" where
  "found_line py_str users = ''Found '' @ py_str (JInt (int (length users))) @ '' users''"

definition processing_line :: "(json \<Rightarrow> string) \<Rightarrow> json \<Rightarrow> string" where
  "processing_line py_str user_name = CHR 0x0A # ''Processing user: '' @ py_str user_name"

text \<open>The \<^verbatim>\<open>for user in users\<close> loop of \<^verbatim>\<open>main\<close>.\<close>

fun follow_users ::
  "(json \<Rightarrow> string) \<Rightarrow> headers \<Rightarrow> json list \<Rightarrow> world \<Rightarrow> (error + unit) \<times> world" where
  "follow_users py_str hdrs [] w = (Inr (), w)"
| "follow_users py_str hdrs (user # users) w =
     (case subscript user ''id'' of
        Inl e \<Rightarrow> (Inl e, w)
      | Inr user_id \<Rightarrow>
          (case dict_get user ''userPrincipalName'' user_id of
             Inl e \<Rightarrow> (Inl e, w)
           | Inr user_name \<Rightarrow>
               (case follow_site py_str user_id SPECIFIC_SITE_ID hdrs
                       (print (processing_line py_str user_name) w) of
                  (Inl e, w') \<Rightarrow> (Inl e, w')
                | (Inr _, w') \<Rightarrow> follow_users py_str hdrs users w')))"

definition main :: "(json \<Rightarrow> string) \<Rightarrow> world \<Rightarrow> ((error + unit) \<times> world) option" where
  "main py_str w =
     (case get_access_token w of
        (Inl e, w1) \<Rightarrow> Some (Inl e, w1)
      | (Inr access_token, w1) \<Rightarrow>
          (case paginated_get (JStr users_url) (bearer_headers py_str access_token) w1 of
             None \<Rightarrow> None
           | Some (Inl e, w2) \<Rightarrow> Some (Inl e, w2)
           | Some (Inr users, w2) \<Rightarrow>
               Some (follow_users py_str (bearer_headers py_str access_token) users
                       (print (found_line py_str users) w2))))"

section \<open>Vocabulary of the statements\<close>

text \<open>
  What the loop of \<^verbatim>\<open>paginated_get\<close> reads in a listing response: the items of its
  \<^verbatim>\<open>value\<close> array and the value of its \<^verbatim>\<open>@odata.nextLink\<close> field (\<open>JNull\<close> when the field
  is missing). A listing page is a response that passes the status check and whose body is a
  JSON object with a \<^verbatim>\<open>value\<close> array. It has a next link when the loop sees one: the field
  holds a value that Python counts as true, such as a non-empty string.
\<close>

definition next_link :: "response \<Rightarrow> json" where
  "next_link r =
     (case json_body r of
        Some (JObj kv) \<Rightarrow> (case map_of kv ''@odata.nextLink'' of None \<Rightarrow> JNull | Some v \<Rightarrow> v)
      | _ \<Rightarrow> JNull)"

definition page_items :: "response \<Rightarrow> json list" where
  "page_items r =
     (case json_body r of
        Some (JObj kv) \<Rightarrow> (case map_of kv ''value'' of Some (JArr xs) \<Rightarrow> xs | _ \<Rightarrow> [])
      | _ \<Rightarrow> [])"

definition listing_page :: "response \<Rightarrow> bool" where
  "listing_page r =
     (\<not> (400 \<le> status_code r \<and> status_code r < 600) \<and>
      (case json_body r of
         Some (JObj kv) \<Rightarrow> (case map_of kv ''value'' of Some (JArr xs) \<Rightarrow> True | _ \<Rightarrow> False)
       | _ \<Rightarrow> False))"

definition has_next_link :: "response \<Rightarrow> bool" where
  "has_next_link r = truthy (next_link r)"

text \<open>
  A token response passes the status check and its body is a JSON object with the field
  \<^verbatim>\<open>access_token\<close>, whose value is \<open>tok\<close>. The field of any response, when it has one.
\<close>

definition token_response :: "response \<Rightarrow> json \<Rightarrow> bool" where
  "token_response r tok =
     (\<not> (400 \<le> status_code r \<and> status_code r < 600) \<and>
      (case json_body r of None \<Rightarrow> False | Some d \<Rightarrow> subscript d ''access_token'' = Inr tok))"

definition access_token_field :: "response \<Rightarrow> json option" where
  "access_token_field r =
     (case json_body r of Some (JObj kv) \<Rightarrow> map_of kv ''access_token'' | _ \<Rightarrow> None)"





text \<open>
  What the loop of \<^verbatim>\<open>main\<close> reads in a user record, and what it prints for a user whose
  follow request was answered by the response \<open>r\<close>.
\<close>

definition has_id :: "json \<Rightarrow> bool" where
  "has_id user = (case subscript user ''id'' of Inl _ \<Rightarrow> False | Inr _ \<Rightarrow> True)"

definition user_id :: "json \<Rightarrow> json" where
  "user_id user = (case subscript user ''id'' of Inl _ \<Rightarrow> JNull | Inr v \<Rightarrow> v)"

definition user_name :: "json \<Rightarrow> json" where
  "user_name user =
     (case dict_get user ''userPrincipalName'' (user_id user) of Inl _ \<Rightarrow> JNull | Inr v \<Rightarrow> v)"

definition report_line :: "(json \<Rightarrow> string) \<Rightarrow> json \<Rightarrow> response \<Rightarrow> string" where
  "report_line py_str uid r =
     (if status_code r \<in> set [200, 204] then success_line py_str uid SPECIFIC_SITE_ID
      else failure_line py_str uid (resp_text r))"

definition user_lines :: "(json \<Rightarrow> string) \<Rightarrow> json \<Rightarrow> response \<Rightarrow> string list" where
  "user_lines py_str user r =
     [processing_line py_str (user_name user), report_line py_str (user_id user) r]"

text \<open>Every request of a list carries the given header mapping.\<close>

definition uses_headers :: "headers \<Rightarrow> request list \<Rightarrow> bool" where
  "uses_headers hdrs rqs = list_all (\<lambda>rq. headers rq = hdrs) rqs"

section \<open>Sample run\<close>

text \<open>
  A formatter for the sample runs: it agrees with Python's \<^verbatim>\<open>str\<close> on strings, integers,
  \<^verbatim>\<open>None\<close> and booleans, which is all the sample runs format; the text of a float, a list
  or a dict is left out.
\<close>

fun str_nat :: "nat \<Rightarrow> string" where
  "str_nat n =
     (if n < 10 then [''0123456789'' ! n]
      else str_nat (n div 10) @ [''0123456789'' ! (n mod 10)])"

declare str_nat.simps [simp del]

fun sample_str :: "json \<Rightarrow> string" where
  "sample_str (JStr s) = s"
| "sample_str (JInt i) = (if i < 0 then CHR ''-'' # str_nat (nat (- i)) else str_nat (nat i))"
| "sample_str JNull = ''None''"
| "sample_str (JBool b) = (if b then ''True'' else ''False'')"
| "sample_str _ = ''...''"

text \<open>
  The remote end of a sample run gives the listed outcomes and then fails every further
  call. The token is \<^verbatim>\<open>T1\<close>; three users come on two pages, the third with an \<^verbatim>\<open>id\<close> only;
  a further page holds a record without \<^verbatim>\<open>id\<close>.
\<close>

definition start_world :: "outcome list \<Rightarrow> world" where
  "start_world rs = \<lparr>replies = rs @- sconst Fails, calls = [], stdout = []\<rparr>"

definition ok_response :: "json \<Rightarrow> response" where
  "ok_response d = \<lparr>status_code = 200, resp_text = [], json_body = Some d\<rparr>"

definition status_only :: "int \<Rightarrow> string \<Rightarrow> response" where
  "status_only code body = \<lparr>status_code = code, resp_text = body, json_body = None\<rparr>"

definition token_ok :: response where
  "token_ok = ok_response (JObj [(''token_type'', JStr ''Bearer''), (''access_token'', JStr ''T1'')])"

definition sample_headers :: headers where
  "sample_headers = bearer_headers sample_str (JStr ''T1'')"

definition user_a :: json where
  "user_a = JObj [(''id'', JStr ''u1''), (''userPrincipalName'', JStr ''a@x.com'')]"

definition user_b :: json where
  "user_b = JObj [(''id'', JStr ''u2''), (''userPrincipalName'', JStr ''b@x.com'')]"

definition user_c :: json where
  "user_c = JObj [(''id'', JStr ''u3'')]"

definition user_without_id :: json where
  "user_without_id = JObj [(''userPrincipalName'', JStr ''d@x.com'')]"

definition page_one :: response where
  "page_one = ok_response (JObj [(''value'', JArr [user_a, user_b]), (''@odata.nextLink'', JStr ''https://next/2'')])"

definition page_two :: response where
  "page_two = ok_response (JObj [(''value'', JArr [user_c])])"

definition page_without_id :: response where
  "page_without_id = ok_response (JObj [(''value'', JArr [user_without_id, user_c])])"


definition redirect_with_token :: response where
  "redirect_with_token =
     \<lparr>status_code = 300, resp_text = [],
      json_body = Some (JObj [(''access_token'', JStr ''T1'')])\<rparr>"

definition page_with_status :: "int \<Rightarrow> response" where
  "page_with_status code =
     \<lparr>status_code = code, resp_text = [],
      json_body = Some (JObj [(''value'', JArr [user_c])])\<rparr>"

definition sample_run :: world where
  "sample_run =
     start_world [Responds token_ok, Responds page_one, Responds page_two,
       Responds (status_only 204 []), Responds (status_only 403 ''Forbidden''),
       Responds (status_only 200 [])]"

definition follow_a :: request where
  "follow_a = follow_request sample_str (JStr ''u1'') SPECIFIC_SITE_ID sample_headers"

definition follow_b :: request where
  "follow_b = follow_request sample_str (JStr ''u2'') SPECIFIC_SITE_ID sample_headers"

definition follow_c :: request where
  "follow_c = follow_request sample_str (JStr ''u3'') SPECIFIC_SITE_ID sample_headers"

definition sample_gets :: "request list" where
  "sample_gets =
     [get_request (JStr users_url) sample_headers,
      get_request (JStr ''https://next/2'') sample_headers]"

definition sample_end :: world where
  "sample_end =
     \<lparr>replies = sconst Fails,
      calls = token_request # sample_gets @ [follow_a, follow_b, follow_c],
      stdout =
        [''Found 3 users'',
         processing_line sample_str (JStr ''a@x.com''),
         success_line sample_str (JStr ''u1'') SPECIFIC_SITE_ID,
         processing_line sample_str (JStr ''b@x.com''),
         failure_line sample_str (JStr ''u2'') ''Forbidden'',
         processing_line sample_str (JStr ''u3''),
         success_line sample_str (JStr ''u3'') SPECIFIC_SITE_ID]\<rparr>"

lemmas sample_defs =
  listing_page_def has_next_link_def next_link_def page_items_def page_one_def page_two_def
  ok_response_def start_world_def token_response_def token_ok_def status_only_def
  user_a_def user_b_def user_c_def has_id_def user_id_def user_name_def user_lines_def
  report_line_def sample_headers_def sample_run_def sample_end_def sample_gets_def
  follow_a_def follow_b_def follow_c_def found_line_def

section \<open>One call, one page, one user\<close>

lemma send_reply:
  "replies w = x ## rest \<Longrightarrow> send rq w = (x, w\<lparr>replies := rest, calls := calls w @ [rq]\<rparr>)"
  by (simp add: send_def)

lemma world_replies_same: "replies w = rest \<Longrightarrow> w\<lparr>replies := rest\<rparr> = w"
  by (cases w) simp

lemma listing_pageE:
  assumes "listing_page r"
  obtains kv xs where "json_body r = Some (JObj kv)" and "map_of kv ''value'' = Some (JArr xs)"
    and "raise_for_status r = Inr ()"
proof -
  from assms obtain d where d: "json_body r = Some d"
    by (cases "json_body r") (simp_all add: listing_page_def)
  with assms obtain kv where kv: "d = JObj kv"
    by (cases d) (simp_all add: listing_page_def)
  with assms d obtain v where v: "map_of kv ''value'' = Some v"
    by (cases "map_of kv ''value''") (simp_all add: listing_page_def)
  with assms d kv obtain xs where "v = JArr xs"
    by (cases v) (simp_all add: listing_page_def)
  moreover from assms have "raise_for_status r = Inr ()"
    by (simp add: listing_page_def raise_for_status_def)
  ultimately show thesis using that d kv v by simp
qed

lemma fetch_page_listing:
  assumes "replies w = Responds r ## rest" and "listing_page r"
  shows "fetch_page u hdrs w =
           (Inr (page_items r, next_link r),
            w\<lparr>replies := rest, calls := calls w @ [get_request u hdrs]\<rparr>)"
proof -
  from assms(2) obtain kv xs where b: "json_body r = Some (JObj kv)"
    and v: "map_of kv ''value'' = Some (JArr xs)" and s: "raise_for_status r = Inr ()"
    by (rule listing_pageE)
  show ?thesis
    by (simp add: fetch_page_def send_reply [OF assms(1)] s resp_json_def b v
          page_items_def next_link_def split: option.split)
qed


lemma fetch_page_status_error:
  assumes "replies w = Responds r ## rest" and "400 \<le> status_code r" and "status_code r < 600"
  shows "fetch_page u hdrs w =
           (Inl (HTTPError (status_code r)),
            w\<lparr>replies := rest, calls := calls w @ [get_request u hdrs]\<rparr>)"
  using assms(2,3) by (simp add: fetch_page_def send_reply [OF assms(1)] raise_for_status_def)

lemma snd_fetch_page:
  "snd (fetch_page u hdrs w) =
     w\<lparr>replies := stl (replies w), calls := calls w @ [get_request u hdrs]\<rparr>"
  by (simp add: fetch_page_def send_def split: outcome.split sum.split)

lemma paginated_loop_step:
  assumes "truthy u" and "fetch_page u hdrs w = (Inr (items, nxt), w')"
  shows "paginated_loop u hdrs acc w = paginated_loop nxt hdrs (acc @ items) w'"
  by (subst paginated_loop.simps) (simp add: assms)

lemma paginated_loop_error:
  assumes "truthy u" and "fetch_page u hdrs w = (Inl e, w')"
  shows "paginated_loop u hdrs acc w = Some (Inl e, w')"
  by (subst paginated_loop.simps) (simp add: assms)

lemma paginated_loop_done:
  assumes "\<not> truthy u"
  shows "paginated_loop u hdrs acc w = Some (Inr acc, w)"
  by (subst paginated_loop.simps) (simp add: assms)


lemma get_access_token_reply:
  assumes "shd (replies w) = Responds r"
  shows "get_access_token w =
           ((case raise_for_status r of
               Inl e \<Rightarrow> Inl e
             | Inr _ \<Rightarrow> (case resp_json r of Inl e \<Rightarrow> Inl e | Inr d \<Rightarrow> subscript d ''access_token'')),
            w\<lparr>replies := stl (replies w), calls := calls w @ [token_request]\<rparr>)"
  using assms by (simp add: get_access_token_def send_def split: sum.split)

lemma get_access_token_ok:
  assumes "shd (replies w) = Responds tr" and "token_response tr tok"
  shows "get_access_token w =
           (Inr tok, w\<lparr>replies := stl (replies w), calls := calls w @ [token_request]\<rparr>)"
proof -
  from assms(2) obtain d where "json_body tr = Some d" and "subscript d ''access_token'' = Inr tok"
    by (cases "json_body tr") (simp_all add: token_response_def)
  moreover from assms(2) have "raise_for_status tr = Inr ()"
    by (simp add: token_response_def raise_for_status_def)
  ultimately show ?thesis
    by (simp add: get_access_token_reply [OF assms(1)] resp_json_def)
qed

lemma snd_get_access_token:
  "snd (get_access_token w) = w\<lparr>replies := stl (replies w), calls := calls w @ [token_request]\<rparr>"
  by (simp add: get_access_token_def send_def split: outcome.split sum.split)

lemma token_field_Some:
  assumes "access_token_field r = Some v"
  shows "\<exists>d. resp_json r = Inr d \<and> subscript d ''access_token'' = Inr v"
proof (cases "json_body r")
  case None
  with assms show ?thesis by (simp add: access_token_field_def)
next
  case (Some d)
  with assms show ?thesis
    by (cases d) (simp_all add: access_token_field_def resp_json_def)
qed

lemma token_field_None:
  assumes "access_token_field r = None"
  shows "isl (case resp_json r of Inl e \<Rightarrow> Inl e | Inr d \<Rightarrow> subscript d ''access_token'')"
proof (cases "json_body r")
  case None
  then show ?thesis by (simp add: resp_json_def)
next
  case (Some d)
  with assms show ?thesis
    by (cases d) (simp_all add: access_token_field_def resp_json_def)
qed



lemma follow_site_reply:
  assumes "replies w = Responds r ## rest"
  shows "follow_site py_str uid sid hdrs w =
           (Inr (),
            w\<lparr>replies := rest,
              calls := calls w @ [follow_request py_str uid sid hdrs],
              stdout := stdout w @
                [if status_code r \<in> set [200, 204] then success_line py_str uid sid
                 else failure_line py_str uid (resp_text r)]\<rparr>)"
  by (simp add: follow_site_def send_reply [OF assms] print_def)

lemma snd_follow_site_calls:
  "calls (snd (follow_site py_str uid sid hdrs w)) = calls w @ [follow_request py_str uid sid hdrs]"
  by (simp add: follow_site_def send_def print_def split: outcome.split)

lemma has_idE:
  assumes "has_id user"
  obtains kv v where "user = JObj kv" and "map_of kv ''id'' = Some v"
proof (cases user)
  case (JObj kv)
  with assms obtain v where "map_of kv ''id'' = Some v"
    by (cases "map_of kv ''id''") (simp_all add: has_id_def)
  with JObj that show thesis by blast
qed (use assms in \<open>simp_all add: has_id_def\<close>)

lemma follow_users_step:
  assumes "has_id user" and "replies w = Responds r ## rest"
  shows "follow_users py_str hdrs (user # users) w =
           follow_users py_str hdrs users
             (w\<lparr>replies := rest,
                calls := calls w @ [follow_request py_str (user_id user) SPECIFIC_SITE_ID hdrs],
                stdout := stdout w @ user_lines py_str user r\<rparr>)"
proof -
  from assms(1) obtain kv v where u: "user = JObj kv" and v: "map_of kv ''id'' = Some v"
    by (rule has_idE)
  let ?n = "case map_of kv ''userPrincipalName'' of None \<Rightarrow> v | Some x \<Rightarrow> x"
  let ?w0 = "print (processing_line py_str ?n) w"
  have r: "replies ?w0 = Responds r ## rest"
    using assms(2) by (simp add: print_def)
  note fs = follow_site_reply [OF r, of py_str v SPECIFIC_SITE_ID hdrs]
  show ?thesis
    by (simp add: u v fs)
      (simp add: u v user_id_def user_name_def user_lines_def report_line_def print_def)
qed

section \<open>The loops\<close>

lemma last_links_truthy:
  assumes "\<forall>r\<in>set ps. listing_page r \<and> has_next_link r" and "truthy u"
  shows "truthy (last (u # map next_link ps))"
  using assms by (cases ps rule: rev_cases) (auto simp: has_next_link_def)

lemma get_requests_snoc:
  "map (\<lambda>v. get_request v hdrs) (butlast (u # us)) @ [get_request (last (u # us)) hdrs] =
     map (\<lambda>v. get_request v hdrs) (u # us)"
proof -
  have "butlast (u # us) @ [last (u # us)] = u # us"
    by (rule append_butlast_last_id) simp
  then have "map (\<lambda>v. get_request v hdrs) (butlast (u # us) @ [last (u # us)]) =
               map (\<lambda>v. get_request v hdrs) (u # us)"
    by (rule arg_cong)
  then show ?thesis by (simp only: map_append list.map)
qed

lemma truthy_users_url: "truthy (JStr users_url)"
  by (simp add: users_url_def GRAPH_BASE_URL_def)

lemma paginated_loop_pages:
  assumes "\<forall>r\<in>set ps. listing_page r \<and> has_next_link r" and "truthy u"
    and "replies w = map Responds ps @- rest"
  shows "paginated_loop u hdrs acc w =
           paginated_loop (last (u # map next_link ps)) hdrs (acc @ concat (map page_items ps))
             (w\<lparr>replies := rest,
                calls := calls w @ map (\<lambda>v. get_request v hdrs) (butlast (u # map next_link ps))\<rparr>)"
  using assms
proof (induction ps arbitrary: u acc w)
  case Nil
  then show ?case by (simp add: world_replies_same)
next
  case (Cons p ps)
  let ?w1 = "w\<lparr>replies := map Responds ps @- rest, calls := calls w @ [get_request u hdrs]\<rparr>"
  have p: "listing_page p" and n: "truthy (next_link p)"
    and ps: "\<forall>r\<in>set ps. listing_page r \<and> has_next_link r"
    using Cons.prems(1) by (simp_all add: has_next_link_def)
  have r: "replies w = Responds p ## (map Responds ps @- rest)"
    using Cons.prems(3) by simp
  have step: "paginated_loop u hdrs acc w = paginated_loop (next_link p) hdrs (acc @ page_items p) ?w1"
    by (rule paginated_loop_step [OF Cons.prems(2) fetch_page_listing [OF r p]])
  have r1: "replies ?w1 = map Responds ps @- rest" by simp
  note ih = Cons.IH [OF ps n r1, of "acc @ page_items p"]
  show ?case by (simp only: step ih) simp
qed



lemma paginated_get_listing:
  assumes "pages \<noteq> []" and "\<forall>r\<in>set pages. listing_page r"
    and "\<forall>r\<in>set (butlast pages). has_next_link r" and "\<not> has_next_link (last pages)"
    and "truthy u" and "replies w = map Responds pages @- rest"
  shows "paginated_get u hdrs w =
           Some (Inr (concat (map page_items pages)),
                 w\<lparr>replies := rest,
                   calls := calls w @ map (\<lambda>v. get_request v hdrs) (u # map next_link (butlast pages))\<rparr>)"
proof -
  let ?ps = "butlast pages" and ?p = "last pages"
  let ?urls = "u # map next_link ?ps"
  have split: "pages = ?ps @ [?p]" using assms(1) by simp
  have ps: "\<forall>r\<in>set ?ps. listing_page r \<and> has_next_link r"
    using assms(2,3) by (auto dest: in_set_butlastD)
  have p: "listing_page ?p" using assms(1,2) by simp
  have "map Responds pages = map Responds ?ps @ [Responds ?p]"
    by (subst split) simp
  then have r: "replies w = map Responds ?ps @- (Responds ?p ## rest)"
    using assms(6) by (simp add: shift_append)
  let ?w1 = "w\<lparr>replies := Responds ?p ## rest,
                calls := calls w @ map (\<lambda>v. get_request v hdrs) (butlast ?urls)\<rparr>"
  have one: "paginated_loop u hdrs [] w =
               paginated_loop (last ?urls) hdrs ([] @ concat (map page_items ?ps)) ?w1"
    by (rule paginated_loop_pages [OF ps assms(5) r])
  have t: "truthy (last ?urls)"
    using ps assms(5) by (cases "?ps" rule: rev_cases) (auto simp: has_next_link_def)
  have r1: "replies ?w1 = Responds ?p ## rest" by simp
  let ?w2 = "?w1\<lparr>replies := rest, calls := calls ?w1 @ [get_request (last ?urls) hdrs]\<rparr>"
  have two: "paginated_loop (last ?urls) hdrs ([] @ concat (map page_items ?ps)) ?w1 =
               paginated_loop (next_link ?p) hdrs (([] @ concat (map page_items ?ps)) @ page_items ?p) ?w2"
    by (rule paginated_loop_step [OF t fetch_page_listing [OF r1 p]])
  have three: "paginated_loop (next_link ?p) hdrs (([] @ concat (map page_items ?ps)) @ page_items ?p) ?w2 =
                 Some (Inr (([] @ concat (map page_items ?ps)) @ page_items ?p), ?w2)"
    using assms(4) by (intro paginated_loop_done) (simp add: has_next_link_def)
  have items: "([] @ concat (map page_items ?ps)) @ page_items ?p = concat (map page_items pages)"
    by (subst (3) split) simp
  have urls: "butlast ?urls @ [last ?urls] = ?urls"
    by (rule append_butlast_last_id) simp
  have w2: "?w2 = w\<lparr>replies := rest, calls := calls w @ map (\<lambda>v. get_request v hdrs) ?urls\<rparr>"
  proof -
    have "map (\<lambda>v. get_request v hdrs) ?urls =
            map (\<lambda>v. get_request v hdrs) (butlast ?urls) @ [get_request (last ?urls) hdrs]"
      by (subst urls [symmetric]) (simp only: map_append list.map)
    then show ?thesis by simp
  qed
  show ?thesis
    by (simp only: paginated_get_def one two three) (simp only: items w2)
qed

lemma paginated_get_status_error:
  assumes "\<forall>r\<in>set ps. listing_page r \<and> has_next_link r" and "truthy u"
    and "replies w = map Responds ps @- (Responds bad ## rest)"
    and "400 \<le> status_code bad" and "status_code bad < 600"
  shows "paginated_get u hdrs w =
           Some (Inl (HTTPError (status_code bad)),
                 w\<lparr>replies := rest,
                   calls := calls w @ map (\<lambda>v. get_request v hdrs) (u # map next_link ps)\<rparr>)"
proof -
  let ?urls = "u # map next_link ps"
  let ?w1 = "w\<lparr>replies := Responds bad ## rest,
                calls := calls w @ map (\<lambda>v. get_request v hdrs) (butlast ?urls)\<rparr>"
  have one: "paginated_loop u hdrs [] w =
               paginated_loop (last ?urls) hdrs ([] @ concat (map page_items ps)) ?w1"
    by (rule paginated_loop_pages [OF assms(1,2,3)])
  have r1: "replies ?w1 = Responds bad ## rest" by simp
  have two: "paginated_loop (last ?urls) hdrs ([] @ concat (map page_items ps)) ?w1 =
               Some (Inl (HTTPError (status_code bad)),
                     ?w1\<lparr>replies := rest, calls := calls ?w1 @ [get_request (last ?urls) hdrs]\<rparr>)"
    by (rule paginated_loop_error [OF last_links_truthy [OF assms(1,2)]
          fetch_page_status_error [OF r1 assms(4,5)]])
  have w2: "?w1\<lparr>replies := rest, calls := calls ?w1 @ [get_request (last ?urls) hdrs]\<rparr> =
              w\<lparr>replies := rest, calls := calls w @ map (\<lambda>v. get_request v hdrs) ?urls\<rparr>"
    using get_requests_snoc [of hdrs u "map next_link ps"] by simp
  show ?thesis
    by (simp only: paginated_get_def one two) (simp only: w2)
qed

lemma paginated_loop_calls:
  assumes "paginated_loop u hdrs acc w = Some y"
  shows "\<exists>us. calls (snd y) = calls w @ map (\<lambda>v. get_request v hdrs) us \<and> stdout (snd y) = stdout w"
  using assms
proof (induction rule: paginated_loop.raw_induct [rotated, consumes 1])
  case (1 loop u hdrs acc w y)
  show ?case
  proof (cases "truthy u")
    case False
    with 1(2) have "y = (Inr acc, w)" by simp
    then have "calls (snd y) = calls w @ map (\<lambda>v. get_request v hdrs) [] \<and> stdout (snd y) = stdout w"
      by simp
    then show ?thesis by blast
  next
    case True
    let ?w1 = "w\<lparr>replies := stl (replies w), calls := calls w @ [get_request u hdrs]\<rparr>"
    obtain res where fp: "fetch_page u hdrs w = (res, ?w1)"
      using snd_fetch_page [of u hdrs w] by (cases "fetch_page u hdrs w") simp
    show ?thesis
    proof (cases res)
      case (Inl e)
      with 1(2) True fp have "y = (Inl e, ?w1)" by simp
      then have "calls (snd y) = calls w @ map (\<lambda>v. get_request v hdrs) [u] \<and> stdout (snd y) = stdout w"
        by simp
      then show ?thesis by blast
    next
      case (Inr pr)
      obtain items nxt where pr: "pr = (items, nxt)" by (cases pr)
      from 1(2) True fp Inr pr have "loop nxt hdrs (acc @ items) ?w1 = Some y" by simp
      from 1(1) [OF this] obtain us where
        "calls (snd y) = calls ?w1 @ map (\<lambda>v. get_request v hdrs) us" and "stdout (snd y) = stdout ?w1"
        by blast
      then have "calls (snd y) = calls w @ map (\<lambda>v. get_request v hdrs) (u # us) \<and> stdout (snd y) = stdout w"
        by simp
      then show ?thesis by blast
    qed
  qed
qed

lemma follow_users_replies:
  assumes "length rs = length users" and "\<forall>user\<in>set users. has_id user"
    and "replies w = map Responds rs @- rest"
  shows "follow_users py_str hdrs users w =
           (Inr (),
            w\<lparr>replies := rest,
              calls := calls w @
                map (\<lambda>user. follow_request py_str (user_id user) SPECIFIC_SITE_ID hdrs) users,
              stdout := stdout w @ concat (map2 (user_lines py_str) users rs)\<rparr>)"
  using assms
proof (induction users arbitrary: rs w)
  case Nil
  then show ?case by (simp add: world_replies_same)
next
  case (Cons user users)
  from Cons.prems(1) obtain r rs' where rs: "rs = r # rs'" and len: "length rs' = length users"
    by (cases rs) simp_all
  have h: "has_id user" and hs: "\<forall>user\<in>set users. has_id user"
    using Cons.prems(2) by simp_all
  have r: "replies w = Responds r ## (map Responds rs' @- rest)"
    using Cons.prems(3) rs by simp
  let ?w1 = "w\<lparr>replies := map Responds rs' @- rest,
                calls := calls w @ [follow_request py_str (user_id user) SPECIFIC_SITE_ID hdrs],
                stdout := stdout w @ user_lines py_str user r\<rparr>"
  have r1: "replies ?w1 = map Responds rs' @- rest" by simp
  note step = follow_users_step [OF h r, of py_str hdrs users]
  note ih = Cons.IH [OF len hs r1]
  show ?case by (simp only: step ih) (simp add: rs)
qed

lemma follow_users_append:
  "follow_users py_str hdrs (pre @ post) w =
     (case follow_users py_str hdrs pre w of
        (Inl e, w') \<Rightarrow> (Inl e, w')
      | (Inr _, w') \<Rightarrow> follow_users py_str hdrs post w')"
proof (induction pre arbitrary: w)
  case Nil
  then show ?case by simp
next
  case (Cons user pre)
  show ?case
    by (simp add: Cons.IH split: sum.split prod.split)
qed

lemma follow_users_no_id:
  assumes "length rs = length pre" and "\<forall>user\<in>set pre. has_id user"
    and "replies w = map Responds rs @- rest" and "subscript user ''id'' = Inl e"
  shows "follow_users py_str hdrs (pre @ user # post) w =
           (Inl e,
            w\<lparr>replies := rest,
              calls := calls w @
                map (\<lambda>user. follow_request py_str (user_id user) SPECIFIC_SITE_ID hdrs) pre,
              stdout := stdout w @ concat (map2 (user_lines py_str) pre rs)\<rparr>)"
  by (simp add: follow_users_append follow_users_replies [OF assms(1,2,3)] assms(4))

lemma follow_users_calls:
  "\<exists>ids. calls (snd (follow_users py_str hdrs users w)) =
           calls w @ map (\<lambda>uid. follow_request py_str uid SPECIFIC_SITE_ID hdrs) ids"
proof (induction users arbitrary: w)
  case Nil
  have "calls (snd (follow_users py_str hdrs [] w)) =
          calls w @ map (\<lambda>uid. follow_request py_str uid SPECIFIC_SITE_ID hdrs) []"
    by simp
  then show ?case by blast
next
  case (Cons user users)
  show ?case
  proof (cases "subscript user ''id''")
    case (Inl e)
    then have "calls (snd (follow_users py_str hdrs (user # users) w)) =
                 calls w @ map (\<lambda>uid. follow_request py_str uid SPECIFIC_SITE_ID hdrs) []"
      by simp
    then show ?thesis by blast
  next
    case (Inr uid)
    show ?thesis
    proof (cases "dict_get user ''userPrincipalName'' uid")
      case (Inl e)
      with Inr have "calls (snd (follow_users py_str hdrs (user # users) w)) =
                   calls w @ map (\<lambda>uid. follow_request py_str uid SPECIFIC_SITE_ID hdrs) []"
        by simp
      then show ?thesis by blast
    next
      case name: (Inr n)
      let ?w0 = "print (processing_line py_str n) w"
      obtain res w1 where fs: "follow_site py_str uid SPECIFIC_SITE_ID hdrs ?w0 = (res, w1)"
        by (cases "follow_site py_str uid SPECIFIC_SITE_ID hdrs ?w0")
      have c1: "calls w1 = calls w @ [follow_request py_str uid SPECIFIC_SITE_ID hdrs]"
        using snd_follow_site_calls [of py_str uid SPECIFIC_SITE_ID hdrs ?w0] fs
        by (simp add: print_def)
      show ?thesis
      proof (cases res)
        case (Inl e)
        with Inr name fs have "follow_users py_str hdrs (user # users) w = (Inl e, w1)" by simp
        with c1 have "calls (snd (follow_users py_str hdrs (user # users) w)) =
                   calls w @ map (\<lambda>uid. follow_request py_str uid SPECIFIC_SITE_ID hdrs) [uid]"
          by simp
        then show ?thesis by blast
      next
        case ok: (Inr x)
        with Inr name fs have eq: "follow_users py_str hdrs (user # users) w = follow_users py_str hdrs users w1"
          by simp
        from Cons.IH [of w1] obtain ids where
          "calls (snd (follow_users py_str hdrs users w1)) =
             calls w1 @ map (\<lambda>uid. follow_request py_str uid SPECIFIC_SITE_ID hdrs) ids"
          by blast
        with c1 eq have "calls (snd (follow_users py_str hdrs (user # users) w)) =
                   calls w @ map (\<lambda>uid. follow_request py_str uid SPECIFIC_SITE_ID hdrs) (uid # ids)"
          by simp
        then show ?thesis by blast
      qed
    qed
  qed
qed

lemma uses_headers_gets: "uses_headers hdrs (map (\<lambda>v. get_request v hdrs) us)"
  by (simp add: uses_headers_def list_all_iff get_request_def)

lemma uses_headers_follows:
  "uses_headers hdrs (map (\<lambda>uid. follow_request py_str uid sid hdrs) ids)"
  by (simp add: uses_headers_def list_all_iff follow_request_def)

lemma uses_headers_append:
  "uses_headers hdrs (xs @ ys) = (uses_headers hdrs xs \<and> uses_headers hdrs ys)"
  by (simp add: uses_headers_def)

lemma bearer_requests:
  assumes "uses_headers (bearer_headers py_str tok) rqs"
  shows "list_all (\<lambda>rq. headers rq =
             [(''Authorization'', ''Bearer '' @ py_str tok),
              (''Content-Type'', ''application/json'')]) rqs \<and>
         token_request \<notin> set rqs \<and>
         (\<forall>s. tok = JStr s \<and> py_str (JStr s) = s \<longrightarrow>
            list_all (\<lambda>rq. map_of (headers rq) ''Authorization'' = Some (''Bearer '' @ s)) rqs)"
  using assms
  by (auto simp: uses_headers_def list_all_iff token_request_def bearer_headers_def)

section \<open>The whole run\<close>

lemma main_token_error:
  assumes "get_access_token w = (Inl e, w1)"
  shows "main py_str w = Some (Inl e, w1)"
  by (simp add: main_def assms)

lemma main_listing_error:
  assumes "get_access_token w = (Inr tok, w1)"
    and "paginated_get (JStr users_url) (bearer_headers py_str tok) w1 = Some (Inl e, w2)"
  shows "main py_str w = Some (Inl e, w2)"
  by (simp add: main_def assms)

lemma main_listing_ok:
  assumes "get_access_token w = (Inr tok, w1)"
    and "paginated_get (JStr users_url) (bearer_headers py_str tok) w1 = Some (Inr users, w2)"
  shows "main py_str w =
           Some (follow_users py_str (bearer_headers py_str tok) users
                   (print (found_line py_str users) w2))"
  by (simp add: main_def assms)


lemma main_listing:
  assumes "replies w = Responds tr ## (map Responds pages @- rest)"
    and "token_response tr tok"
    and "pages \<noteq> []" and "\<forall>r\<in>set pages. listing_page r"
    and "\<forall>r\<in>set (butlast pages). has_next_link r" and "\<not> has_next_link (last pages)"
  shows "main py_str w =
           Some (follow_users py_str (bearer_headers py_str tok) (concat (map page_items pages))
                   (w\<lparr>replies := rest,
                      calls := calls w @ token_request #
                        map (\<lambda>v. get_request v (bearer_headers py_str tok))
                          (JStr users_url # map next_link (butlast pages)),
                      stdout := stdout w @ [found_line py_str (concat (map page_items pages))]\<rparr>))"
proof -
  let ?w1 = "w\<lparr>replies := stl (replies w), calls := calls w @ [token_request]\<rparr>"
  have t: "get_access_token w = (Inr tok, ?w1)"
    using assms(1,2) by (intro get_access_token_ok) simp_all
  have r1: "replies ?w1 = map Responds pages @- rest"
    using assms(1) by simp
  note p = paginated_get_listing [OF assms(3,4,5,6) truthy_users_url r1,
      of "bearer_headers py_str tok"]
  show ?thesis
    by (simp only: main_listing_ok [OF t p]) (simp add: print_def)
qed

lemma main_run:
  assumes "replies w = Responds tr ## (map Responds pages @- (map Responds rs @- rest))"
    and "token_response tr tok"
    and "pages \<noteq> []" and "\<forall>r\<in>set pages. listing_page r"
    and "\<forall>r\<in>set (butlast pages). has_next_link r" and "\<not> has_next_link (last pages)"
    and "length rs = length (concat (map page_items pages))"
    and "\<forall>user\<in>set (concat (map page_items pages)). has_id user"
  shows "main py_str w =
           Some (Inr (),
                 w\<lparr>replies := rest,
                   calls := calls w @ token_request #
                     map (\<lambda>v. get_request v (bearer_headers py_str tok))
                       (JStr users_url # map next_link (butlast pages)) @
                     map (\<lambda>user. follow_request py_str (user_id user) SPECIFIC_SITE_ID
                                  (bearer_headers py_str tok))
                       (concat (map page_items pages)),
                   stdout := stdout w @ found_line py_str (concat (map page_items pages)) #
                     concat (map2 (user_lines py_str) (concat (map page_items pages)) rs)\<rparr>)"
proof -
  let ?users = "concat (map page_items pages)"
  let ?hdrs = "bearer_headers py_str tok"
  let ?w2 = "w\<lparr>replies := map Responds rs @- rest,
                calls := calls w @ token_request #
                  map (\<lambda>v. get_request v ?hdrs) (JStr users_url # map next_link (butlast pages)),
                stdout := stdout w @ [found_line py_str ?users]\<rparr>"
  have m: "main py_str w = Some (follow_users py_str ?hdrs ?users ?w2)"
    by (rule main_listing [OF assms(1,2,3,4,5,6)])
  have r2: "replies ?w2 = map Responds rs @- rest" by simp
  note f = follow_users_replies [OF assms(7,8) r2, of py_str ?hdrs]
  show ?thesis
    by (simp only: m f) simp
qed

lemma sample_run_main: "main sample_str sample_run = Some (Inr (), sample_end)"
  using main_run [of sample_run token_ok "[page_one, page_two]"
      "[status_only 204 [], status_only 403 ''Forbidden'', status_only 200 []]"
      "sconst Fails" "JStr ''T1''" sample_str]
  by (simp add: sample_defs str_nat.simps)

section \<open>Pagination returns every page's items\<close>

text \<open>
  C1. For every sequence of N pages, page i holding k_i items in its \<^verbatim>\<open>value\<close> array, with a
  next link on pages 1..N-1 and none on page N, \<^verbatim>\<open>paginated_get\<close> returns, and returns the
  concatenation of the pages' items in page order; its length is the sum of the k_i. It
  makes one GET per page: the start URL, then each page's link.
\<close>

theorem paginated_get_concatenates_pages:
  assumes "pages \<noteq> []" and "\<forall>r\<in>set pages. listing_page r"
    and "\<forall>r\<in>set (butlast pages). has_next_link r" and "\<not> has_next_link (last pages)"
    and "truthy u" and "replies w = map Responds pages @- rest"
  shows "paginated_get u hdrs w =
           Some (Inr (concat (map page_items pages)),
                 w\<lparr>replies := rest,
                   calls := calls w @ map (\<lambda>v. get_request v hdrs) (u # map next_link (butlast pages))\<rparr>)
         \<and> length (concat (map page_items pages)) = (\<Sum>r\<leftarrow>pages. length (page_items r))"
  using paginated_get_listing [OF assms] by (simp add: length_concat comp_def)

theorem paginated_get_concatenates_pages_witness:
  "listing_page page_one \<and> listing_page page_two \<and> has_next_link page_one \<and>
   \<not> has_next_link page_two \<and>
   paginated_get (JStr users_url) [] (start_world [Responds page_one, Responds page_two]) =
     Some (Inr [user_a, user_b, user_c],
           \<lparr>replies = sconst Fails,
            calls = [get_request (JStr users_url) [], get_request (JStr ''https://next/2'') []],
            stdout = []\<rparr>) \<and>
   length [user_a, user_b, user_c] = (\<Sum>r\<leftarrow>[page_one, page_two]. length (page_items r))"
  using paginated_get_concatenates_pages
    [of "[page_one, page_two]" "JStr users_url"
        "start_world [Responds page_one, Responds page_two]" "sconst Fails" "[]"]
  by (simp add: listing_page_def has_next_link_def next_link_def page_items_def page_one_def
        page_two_def ok_response_def start_world_def users_url_def GRAPH_BASE_URL_def)

section \<open>The outcome of a follow call\<close>

text \<open>
  C2. For every response to the follow request, whatever its body, \<^verbatim>\<open>follow_site\<close> prints
  the success line if and only if the status is 200 or 204, and for every other status prints
  the failure line: four spaces, the cross mark, \<^verbatim>\<open>Failed for\<close>, the user, a colon and the
  response text. It returns normally in both cases, having made the one POST.
\<close>

theorem follow_site_reports_by_status:
  assumes "shd (replies w) = Responds r"
  shows "fst (follow_site py_str uid sid hdrs w) = Inr () \<and>
         calls (snd (follow_site py_str uid sid hdrs w)) =
           calls w @ [follow_request py_str uid sid hdrs] \<and>
         (stdout (snd (follow_site py_str uid sid hdrs w)) =
            stdout w @
              [''    '' @ [CHR 0xE2, CHR 0x9C, CHR 0x85] @ '' User '' @ py_str uid @
               '' now follows site '' @ sid])
           = (status_code r = 200 \<or> status_code r = 204) \<and>
         (stdout (snd (follow_site py_str uid sid hdrs w)) =
            stdout w @
              [''    '' @ [CHR 0xE2, CHR 0x9D, CHR 0x8C] @ '' Failed for '' @ py_str uid @
               '': '' @ resp_text r])
           = (status_code r \<noteq> 200 \<and> status_code r \<noteq> 204)"
proof -
  have r: "replies w = Responds r ## stl (replies w)"
    using assms by (cases "replies w") simp
  show ?thesis
    by (simp add: follow_site_reply [OF r] success_line_def failure_line_def check_mark_def
          cross_mark_def)
qed

theorem follow_site_reports_by_status_witness:
  "stdout (snd (follow_site sample_str (JStr ''u1'') SPECIFIC_SITE_ID sample_headers
                  (start_world [Responds (status_only 204 [])]))) =
     [''    '' @ [CHR 0xE2, CHR 0x9C, CHR 0x85] @ '' User u1 now follows site YOUR_SITE_ID''] \<and>
   stdout (snd (follow_site sample_str (JStr ''u2'') SPECIFIC_SITE_ID sample_headers
                  (start_world [Responds (status_only 403 ''Forbidden'')]))) =
     [''    '' @ [CHR 0xE2, CHR 0x9D, CHR 0x8C] @ '' Failed for u2: Forbidden'']"
  using
    follow_site_reports_by_status [of "start_world [Responds (status_only 204 [])]"
      "status_only 204 []" sample_str "JStr ''u1''" SPECIFIC_SITE_ID sample_headers]
    follow_site_reports_by_status [of "start_world [Responds (status_only 403 ''Forbidden'')]"
      "status_only 403 ''Forbidden''" sample_str "JStr ''u2''" SPECIFIC_SITE_ID sample_headers]
  by (simp add: start_world_def status_only_def SPECIFIC_SITE_ID_def)

section \<open>A rejected token request ends the run\<close>

text \<open>
  C3, amended. If the token endpoint answers with a status from 400 to 599, the statuses
  that \<^verbatim>\<open>raise_for_status\<close> rejects, \<^verbatim>\<open>main\<close> ends with that \<^verbatim>\<open>HTTPError\<close>; the token request is
  the only call made, so no listing request and no follow request is issued, and nothing is
  printed. The same holds whenever \<^verbatim>\<open>get_access_token\<close> fails, for whatever reason.
\<close>

theorem token_error_aborts_run:
  assumes "shd (replies w) = Responds r" and "400 \<le> status_code r" and "status_code r < 600"
  shows "main py_str w =
           Some (Inl (HTTPError (status_code r)),
                 w\<lparr>replies := stl (replies w), calls := calls w @ [token_request]\<rparr>) \<and>
         (\<forall>w0 e. fst (get_access_token w0) = Inl e \<longrightarrow>
            main py_str w0 =
              Some (Inl e, w0\<lparr>replies := stl (replies w0), calls := calls w0 @ [token_request]\<rparr>))"
proof (intro conjI allI impI)
  have "get_access_token w =
          (Inl (HTTPError (status_code r)),
           w\<lparr>replies := stl (replies w), calls := calls w @ [token_request]\<rparr>)"
    using assms(2,3) by (simp add: get_access_token_reply [OF assms(1)] raise_for_status_def)
  then show "main py_str w =
           Some (Inl (HTTPError (status_code r)),
                 w\<lparr>replies := stl (replies w), calls := calls w @ [token_request]\<rparr>)"
    by (rule main_token_error)
next
  fix w0 e
  assume "fst (get_access_token w0) = Inl e"
  with snd_get_access_token [of w0]
  have "get_access_token w0 =
          (Inl e, w0\<lparr>replies := stl (replies w0), calls := calls w0 @ [token_request]\<rparr>)"
    by (cases "get_access_token w0") simp
  then show "main py_str w0 =
      Some (Inl e, w0\<lparr>replies := stl (replies w0), calls := calls w0 @ [token_request]\<rparr>)"
    by (rule main_token_error)
qed

theorem token_error_aborts_run_witness:
  "main sample_str (start_world [Responds (status_only 401 ''Unauthorized'')]) =
     Some (Inl (HTTPError 401), \<lparr>replies = sconst Fails, calls = [token_request], stdout = []\<rparr>)"
  using token_error_aborts_run [of "start_world [Responds (status_only 401 ''Unauthorized'')]"
      "status_only 401 ''Unauthorized''" sample_str]
  by (simp add: start_world_def status_only_def)

text \<open>
  The sentence for every non-success status fails: a token reply with status 300 and a token
  in its body is not rejected, and the run goes on to list the users and to follow the site.
\<close>

theorem token_status_counterexample:
  "main sample_str
     (start_world [Responds redirect_with_token, Responds page_two,
        Responds (status_only 204 [])]) =
     Some (Inr (),
           \<lparr>replies = sconst Fails,
            calls = [token_request, get_request (JStr users_url) sample_headers, follow_c],
            stdout =
              [''Found 1 users'',
               CHR 0x0A # ''Processing user: u3'',
               ''    '' @ [CHR 0xE2, CHR 0x9C, CHR 0x85] @
                 '' User u3 now follows site YOUR_SITE_ID'']\<rparr>)"
  using main_run [of
      "start_world [Responds redirect_with_token, Responds page_two, Responds (status_only 204 [])]"
      redirect_with_token "[page_two]" "[status_only 204 []]" "sconst Fails" "JStr ''T1''"
      sample_str]
  by (simp add: sample_defs redirect_with_token_def str_nat.simps SPECIFIC_SITE_ID_def
        processing_line_def success_line_def check_mark_def)

section \<open>A rejected page request ends the run\<close>

text \<open>
  C4, amended. If, after any number of pages that each carry a next link, a page request is
  answered with a status from 400 to 599, the statuses that \<^verbatim>\<open>raise_for_status\<close> rejects,
  \<^verbatim>\<open>main\<close> ends with that \<^verbatim>\<open>HTTPError\<close>. The calls made are the token request and the GETs;
  no follow request is issued and nothing is printed: the items of the earlier pages never
  reach the loop over the users.
\<close>

theorem listing_error_aborts_run:
  assumes "replies w = Responds tr ## (map Responds ps @- (Responds bad ## rest))"
    and "token_response tr tok"
    and "\<forall>r\<in>set ps. listing_page r \<and> has_next_link r"
    and "400 \<le> status_code bad" and "status_code bad < 600"
  shows "main py_str w =
           Some (Inl (HTTPError (status_code bad)),
                 w\<lparr>replies := rest,
                   calls := calls w @ token_request #
                     map (\<lambda>v. get_request v (bearer_headers py_str tok))
                       (JStr users_url # map next_link ps)\<rparr>)"
proof -
  let ?w1 = "w\<lparr>replies := stl (replies w), calls := calls w @ [token_request]\<rparr>"
  have t: "get_access_token w = (Inr tok, ?w1)"
    using assms(1,2) by (intro get_access_token_ok) simp_all
  have r1: "replies ?w1 = map Responds ps @- (Responds bad ## rest)"
    using assms(1) by simp
  note p = paginated_get_status_error [OF assms(3) truthy_users_url r1 assms(4,5),
      of "bearer_headers py_str tok"]
  show ?thesis
    by (simp only: main_listing_error [OF t p]) simp
qed

theorem listing_error_aborts_run_witness:
  "main sample_str
     (start_world [Responds token_ok, Responds page_one,
        Responds (status_only 503 ''Service Unavailable'')]) =
     Some (Inl (HTTPError 503),
           \<lparr>replies = sconst Fails, calls = token_request # sample_gets, stdout = []\<rparr>)"
  using listing_error_aborts_run [of
      "start_world [Responds token_ok, Responds page_one,
         Responds (status_only 503 ''Service Unavailable'')]"
      token_ok "[page_one]" "status_only 503 ''Service Unavailable''" "sconst Fails"
      "JStr ''T1''" sample_str]
  by (simp add: sample_defs)

text \<open>
  The sentence for every non-success status fails: a page answered with status 300 or 600
  and a JSON body is taken as a page, and the run goes on to the follow request.
\<close>

theorem listing_status_counterexample:
  "main sample_str
     (start_world [Responds token_ok, Responds (page_with_status 300),
        Responds (status_only 204 [])]) =
     Some (Inr (),
           \<lparr>replies = sconst Fails,
            calls = [token_request, get_request (JStr users_url) sample_headers, follow_c],
            stdout =
              [''Found 1 users'',
               CHR 0x0A # ''Processing user: u3'',
               ''    '' @ [CHR 0xE2, CHR 0x9C, CHR 0x85] @
                 '' User u3 now follows site YOUR_SITE_ID'']\<rparr>) \<and>
   main sample_str
     (start_world [Responds token_ok, Responds (page_with_status 600),
        Responds (status_only 204 [])]) =
     Some (Inr (),
           \<lparr>replies = sconst Fails,
            calls = [token_request, get_request (JStr users_url) sample_headers, follow_c],
            stdout =
              [''Found 1 users'',
               CHR 0x0A # ''Processing user: u3'',
               ''    '' @ [CHR 0xE2, CHR 0x9C, CHR 0x85] @
                 '' User u3 now follows site YOUR_SITE_ID'']\<rparr>)"
  using
    main_run [of
      "start_world [Responds token_ok, Responds (page_with_status 300), Responds (status_only 204 [])]"
      token_ok "[page_with_status 300]" "[status_only 204 []]" "sconst Fails" "JStr ''T1''"
      sample_str]
    main_run [of
      "start_world [Responds token_ok, Responds (page_with_status 600), Responds (status_only 204 [])]"
      token_ok "[page_with_status 600]" "[status_only 204 []]" "sconst Fails" "JStr ''T1''"
      sample_str]
  by (simp add: sample_defs page_with_status_def str_nat.simps SPECIFIC_SITE_ID_def
        processing_line_def success_line_def check_mark_def)

section \<open>A failed follow call does not stop the loop\<close>

text \<open>
  C5. For every list of fetched users that each have an \<^verbatim>\<open>id\<close>, and whatever the statuses of
  the responses to the follow requests, the loop over the users runs to its end: it makes
  one follow request per user, in the order of the list, and prints two lines per user, the
  progress line and the report. For a response with a status other than 200 and 204 the
  report is the failure line: four spaces, the cross mark, \<^verbatim>\<open>Failed for\<close>, the user's id,
  a colon and the response text.
\<close>

theorem follow_failure_does_not_stop:
  assumes "length rs = length users" and "\<forall>user\<in>set users. has_id user"
    and "replies w = map Responds rs @- rest"
  shows "follow_users py_str hdrs users w =
           (Inr (),
            w\<lparr>replies := rest,
              calls := calls w @
                map (\<lambda>user. follow_request py_str (user_id user) SPECIFIC_SITE_ID hdrs) users,
              stdout := stdout w @
                concat (map2
                  (\<lambda>user r.
                     [CHR 0x0A # ''Processing user: '' @ py_str (user_name user),
                      if status_code r = 200 \<or> status_code r = 204
                      then ''    '' @ [CHR 0xE2, CHR 0x9C, CHR 0x85] @ '' User '' @
                           py_str (user_id user) @ '' now follows site '' @ SPECIFIC_SITE_ID
                      else ''    '' @ [CHR 0xE2, CHR 0x9D, CHR 0x8C] @ '' Failed for '' @
                           py_str (user_id user) @ '': '' @ resp_text r])
                  users rs)\<rparr>)"
proof -
  have "user_lines py_str =
          (\<lambda>user r.
             [CHR 0x0A # ''Processing user: '' @ py_str (user_name user),
              if status_code r = 200 \<or> status_code r = 204
              then ''    '' @ [CHR 0xE2, CHR 0x9C, CHR 0x85] @ '' User '' @
                   py_str (user_id user) @ '' now follows site '' @ SPECIFIC_SITE_ID
              else ''    '' @ [CHR 0xE2, CHR 0x9D, CHR 0x8C] @ '' Failed for '' @
                   py_str (user_id user) @ '': '' @ resp_text r])"
    by (intro ext)
      (simp add: user_lines_def report_line_def processing_line_def success_line_def
        failure_line_def check_mark_def cross_mark_def)
  then show ?thesis
    using follow_users_replies [OF assms, of py_str hdrs] by simp
qed

theorem follow_failure_does_not_stop_witness:
  "follow_users sample_str sample_headers [user_a, user_b, user_c]
     (start_world [Responds (status_only 204 []), Responds (status_only 403 ''Forbidden''),
        Responds (status_only 200 [])]) =
     (Inr (),
      \<lparr>replies = sconst Fails,
       calls = [follow_a, follow_b, follow_c],
       stdout =
         [CHR 0x0A # ''Processing user: a@x.com'',
          ''    '' @ [CHR 0xE2, CHR 0x9C, CHR 0x85] @ '' User u1 now follows site YOUR_SITE_ID'',
          CHR 0x0A # ''Processing user: b@x.com'',
          ''    '' @ [CHR 0xE2, CHR 0x9D, CHR 0x8C] @ '' Failed for u2: Forbidden'',
          CHR 0x0A # ''Processing user: u3'',
          ''    '' @ [CHR 0xE2, CHR 0x9C, CHR 0x85] @ '' User u3 now follows site YOUR_SITE_ID'']\<rparr>)"
  using follow_failure_does_not_stop [of
      "[status_only 204 [], status_only 403 ''Forbidden'', status_only 200 []]"
      "[user_a, user_b, user_c]"
      "start_world [Responds (status_only 204 []), Responds (status_only 403 ''Forbidden''),
         Responds (status_only 200 [])]"
      "sconst Fails" sample_str sample_headers]
  by (simp add: sample_defs SPECIFIC_SITE_ID_def)

section \<open>What get_access_token returns\<close>

text \<open>
  C6, amended. When the token endpoint answers with status 200 and a JSON object that has
  the field \<^verbatim>\<open>access_token\<close>, \<^verbatim>\<open>get_access_token\<close> returns the value of that field as it is
  (a non-empty string only if the endpoint sent one). It fails whenever the field is absent
  or the status is from 400 to 599.
\<close>

theorem get_access_token_returns_field:
  assumes "shd (replies w) = Responds r"
  shows "(status_code r = 200 \<and> access_token_field r = Some v \<longrightarrow>
            fst (get_access_token w) = Inr v) \<and>
         (access_token_field r = None \<or> (400 \<le> status_code r \<and> status_code r < 600) \<longrightarrow>
            isl (fst (get_access_token w)))"
proof (intro conjI impI)
  assume a: "status_code r = 200 \<and> access_token_field r = Some v"
  then obtain d where "resp_json r = Inr d" and "subscript d ''access_token'' = Inr v"
    using token_field_Some by blast
  with a show "fst (get_access_token w) = Inr v"
    by (simp add: get_access_token_reply [OF assms] raise_for_status_def)
next
  assume a: "access_token_field r = None \<or> (400 \<le> status_code r \<and> status_code r < 600)"
  show "isl (fst (get_access_token w))"
  proof (cases "400 \<le> status_code r \<and> status_code r < 600")
    case True
    then show ?thesis
      by (simp add: get_access_token_reply [OF assms] raise_for_status_def)
  next
    case False
    with a have "access_token_field r = None" by simp
    from token_field_None [OF this] False show ?thesis
      by (simp add: get_access_token_reply [OF assms] raise_for_status_def)
  qed
qed

theorem get_access_token_returns_field_witness:
  "fst (get_access_token (start_world [Responds token_ok])) = Inr (JStr ''T1'') \<and>
   isl (fst (get_access_token (start_world [Responds (ok_response (JObj []))]))) \<and>
   isl (fst (get_access_token (start_world [Responds (status_only 401 ''Unauthorized'')])))"
  using
    get_access_token_returns_field [of "start_world [Responds token_ok]" token_ok "JStr ''T1''"]
    get_access_token_returns_field [of "start_world [Responds (ok_response (JObj []))]"
      "ok_response (JObj [])"]
    get_access_token_returns_field [of "start_world [Responds (status_only 401 ''Unauthorized'')]"
      "status_only 401 ''Unauthorized''"]
  by (simp add: start_world_def token_ok_def ok_response_def status_only_def
        access_token_field_def)

text \<open>
  The sentence with ``a non-empty string'' and ``non-2xx'' fails: an empty
  \<^verbatim>\<open>access_token\<close> is returned as it is, and a status 300 with a token in the body is not
  rejected.
\<close>

theorem get_access_token_counterexample:
  "fst (get_access_token (start_world [Responds (ok_response (JObj [(''access_token'', JStr [])]))]))
     = Inr (JStr []) \<and>
   fst (get_access_token
          (start_world [Responds \<lparr>status_code = 300, resp_text = [],
             json_body = Some (JObj [(''access_token'', JStr ''T1'')])\<rparr>]))
     = Inr (JStr ''T1'')"
  by (simp add: get_access_token_def send_def start_world_def ok_response_def
        raise_for_status_def resp_json_def)

section \<open>A listing response without the value field\<close>




section \<open>One GET per page, one POST per user\<close>

text \<open>
  C8. Against a single page without next link, \<^verbatim>\<open>paginated_get\<close> returns that page's items
  and makes exactly one call. A whole run over N pages makes, after the token request, N
  listing GETs (two for a two-page listing) and then one follow POST per fetched item, in
  the order in which the items were returned.
\<close>

theorem one_get_per_page_one_follow_per_user:
  assumes "replies w = Responds tr ## (map Responds pages @- (map Responds rs @- rest))"
    and "token_response tr tok"
    and "pages \<noteq> []" and "\<forall>r\<in>set pages. listing_page r"
    and "\<forall>r\<in>set (butlast pages). has_next_link r" and "\<not> has_next_link (last pages)"
    and "length rs = length (concat (map page_items pages))"
    and "\<forall>user\<in>set (concat (map page_items pages)). has_id user"
    and "shd (replies w1) = Responds p" and "listing_page p" and "\<not> has_next_link p"
    and "truthy u"
  shows "paginated_get u hdrs w1 =
           Some (Inr (page_items p),
                 w1\<lparr>replies := stl (replies w1), calls := calls w1 @ [get_request u hdrs]\<rparr>)
         \<and> main py_str w =
           Some (Inr (),
                 w\<lparr>replies := rest,
                   calls := calls w @ token_request #
                     map (\<lambda>v. get_request v (bearer_headers py_str tok))
                       (JStr users_url # map next_link (butlast pages)) @
                     map (\<lambda>user. follow_request py_str (user_id user) SPECIFIC_SITE_ID
                                  (bearer_headers py_str tok))
                       (concat (map page_items pages)),
                   stdout := stdout w @ found_line py_str (concat (map page_items pages)) #
                     concat (map2 (user_lines py_str) (concat (map page_items pages)) rs)\<rparr>)
         \<and> length (map (\<lambda>v. get_request v (bearer_headers py_str tok))
                      (JStr users_url # map next_link (butlast pages))) = length pages
         \<and> length (map (\<lambda>user. follow_request py_str (user_id user) SPECIFIC_SITE_ID
                                  (bearer_headers py_str tok))
                      (concat (map page_items pages))) = (\<Sum>r\<leftarrow>pages. length (page_items r))"
proof -
  have r1: "replies w1 = map Responds [p] @- stl (replies w1)"
    using assms(9) by (cases "replies w1") simp
  have single: "paginated_get u hdrs w1 =
           Some (Inr (page_items p),
                 w1\<lparr>replies := stl (replies w1), calls := calls w1 @ [get_request u hdrs]\<rparr>)"
    using paginated_get_listing [OF _ _ _ _ assms(12) r1, of hdrs] assms(10,11) by simp
  note run = main_run [OF assms(1,2,3,4,5,6,7,8), of py_str]
  have gets: "length (map (\<lambda>v. get_request v (bearer_headers py_str tok))
                (JStr users_url # map next_link (butlast pages))) = length pages"
    using assms(3) by simp
  have posts: "length (map (\<lambda>user. follow_request py_str (user_id user) SPECIFIC_SITE_ID
                                    (bearer_headers py_str tok))
                         (concat (map page_items pages))) = (\<Sum>r\<leftarrow>pages. length (page_items r))"
    by (simp add: length_concat comp_def)
  from single run gets posts show ?thesis by (intro conjI)
qed

theorem one_get_per_page_one_follow_per_user_witness:
  "paginated_get (JStr users_url) sample_headers (start_world [Responds page_two]) =
     Some (Inr [user_c],
           \<lparr>replies = sconst Fails,
            calls = [get_request (JStr users_url) sample_headers], stdout = []\<rparr>) \<and>
   main sample_str sample_run = Some (Inr (), sample_end) \<and>
   length sample_gets = 2 \<and>
   [rq \<leftarrow> calls sample_end. http_method rq = GET] = sample_gets \<and>
   map url (drop 3 (calls sample_end)) =
     [JStr (GRAPH_BASE_URL @ ''/users/u1/followedSites/add''),
      JStr (GRAPH_BASE_URL @ ''/users/u2/followedSites/add''),
      JStr (GRAPH_BASE_URL @ ''/users/u3/followedSites/add'')]"
  using one_get_per_page_one_follow_per_user [of sample_run token_ok "[page_one, page_two]"
      "[status_only 204 [], status_only 403 ''Forbidden'', status_only 200 []]"
      "sconst Fails" "JStr ''T1''" "start_world [Responds page_two]" page_two
      "JStr users_url" sample_headers sample_str]
  by (simp add: sample_defs str_nat.simps token_request_def get_request_def follow_request_def
        users_url_def GRAPH_BASE_URL_def)

section \<open>One token for the whole run\<close>

text \<open>
  C9. For every run of \<^verbatim>\<open>main\<close> that ends, normally or with an exception: the first call is
  the token request, and every later call, listing GET or follow POST, carries the same
  two headers, \<^verbatim>\<open>Authorization\<close> with \<^verbatim>\<open>Bearer\<close>, a space and the formatted token that the
  first call returned, and the JSON content type. When the token is a string, which
  Python formats as itself, the \<^verbatim>\<open>Authorization\<close> header is \<^verbatim>\<open>Bearer\<close>, a space and that
  string. No later call is a token request. When the token request fails there is no later
  call at all.
\<close>

theorem token_used_unmodified:
  assumes "main py_str w = Some (res, w')"
  shows "\<exists>rqs. calls w' = calls w @ token_request # rqs \<and>
           (case fst (get_access_token w) of
              Inl e \<Rightarrow> rqs = []
            | Inr tok \<Rightarrow>
                list_all (\<lambda>rq. headers rq =
                    [(''Authorization'', ''Bearer '' @ py_str tok),
                     (''Content-Type'', ''application/json'')]) rqs \<and>
                token_request \<notin> set rqs \<and>
                (\<forall>s. tok = JStr s \<and> py_str (JStr s) = s \<longrightarrow>
                   list_all (\<lambda>rq. map_of (headers rq) ''Authorization'' = Some (''Bearer '' @ s))
                     rqs))"
proof -
  let ?w1 = "w\<lparr>replies := stl (replies w), calls := calls w @ [token_request]\<rparr>"
  obtain t where t: "get_access_token w = (t, ?w1)"
    using snd_get_access_token [of w] by (cases "get_access_token w") simp
  show ?thesis
  proof (cases t)
    case (Inl e)
    with assms t have "w' = ?w1" by (simp add: main_def)
    with Inl t show ?thesis by simp
  next
    case (Inr tok)
    let ?hdrs = "bearer_headers py_str tok"
    have g: "fst (get_access_token w) = Inr tok" using t Inr by simp
    from assms t Inr obtain y where p: "paginated_get (JStr users_url) ?hdrs ?w1 = Some y"
      by (cases "paginated_get (JStr users_url) ?hdrs ?w1") (simp_all add: main_def)
    then obtain us where c2: "calls (snd y) = calls ?w1 @ map (\<lambda>v. get_request v ?hdrs) us"
      using paginated_loop_calls [of "JStr users_url" ?hdrs "[]" ?w1 y]
      by (auto simp: paginated_get_def)
    obtain lres w2 where y: "y = (lres, w2)" by (cases y)
    show ?thesis
    proof (cases lres)
      case (Inl e)
      with assms t Inr p y have "w' = w2" by (simp add: main_def)
      with c2 y have c: "calls w' = calls w @ token_request # map (\<lambda>v. get_request v ?hdrs) us"
        by simp
      have u: "uses_headers ?hdrs (map (\<lambda>v. get_request v ?hdrs) us)"
        by (rule uses_headers_gets)
      show ?thesis
        by (simp only: g sum.case) (use c bearer_requests [OF u] in blast)
    next
      case users: (Inr users)
      let ?w3 = "print (found_line py_str users) w2"
      from assms t Inr p y users
      have w': "w' = snd (follow_users py_str ?hdrs users ?w3)"
        by (simp add: main_def)
      obtain ids where "calls w' =
          calls ?w3 @ map (\<lambda>uid. follow_request py_str uid SPECIFIC_SITE_ID ?hdrs) ids"
        using follow_users_calls [of py_str ?hdrs users ?w3] w' by blast
      with c2 y have c: "calls w' = calls w @ token_request #
          (map (\<lambda>v. get_request v ?hdrs) us @
           map (\<lambda>uid. follow_request py_str uid SPECIFIC_SITE_ID ?hdrs) ids)"
        by (simp add: print_def)
      have u: "uses_headers ?hdrs (map (\<lambda>v. get_request v ?hdrs) us @
           map (\<lambda>uid. follow_request py_str uid SPECIFIC_SITE_ID ?hdrs) ids)"
        by (simp only: uses_headers_append uses_headers_gets uses_headers_follows)
      show ?thesis
        by (simp only: g sum.case) (use c bearer_requests [OF u] in blast)
    qed
  qed
qed

theorem token_used_unmodified_witness:
  "main sample_str sample_run = Some (Inr (), sample_end) \<and>
   calls sample_end = calls sample_run @ token_request # sample_gets @ [follow_a, follow_b, follow_c] \<and>
   map (\<lambda>rq. map_of (headers rq) ''Authorization'')
     (sample_gets @ [follow_a, follow_b, follow_c]) =
     [Some ''Bearer T1'', Some ''Bearer T1'', Some ''Bearer T1'', Some ''Bearer T1'',
      Some ''Bearer T1''] \<and>
   sample_str (JStr ''T1'') = ''T1''"
proof -
  from token_used_unmodified [OF sample_run_main]
  obtain rqs where c: "calls sample_end = calls sample_run @ token_request # rqs"
    and h: "case fst (get_access_token sample_run) of
           Inl e \<Rightarrow> rqs = []
         | Inr tok \<Rightarrow>
             list_all (\<lambda>rq. headers rq =
                 [(''Authorization'', ''Bearer '' @ sample_str tok),
                  (''Content-Type'', ''application/json'')]) rqs \<and>
             token_request \<notin> set rqs \<and>
             (\<forall>s. tok = JStr s \<and> sample_str (JStr s) = s \<longrightarrow>
                list_all (\<lambda>rq. map_of (headers rq) ''Authorization'' = Some (''Bearer '' @ s)) rqs)"
    by blast
  have g: "fst (get_access_token sample_run) = Inr (JStr ''T1'')"
    by (simp add: get_access_token_def send_def sample_defs raise_for_status_def resp_json_def)
  have e: "calls sample_run = []"
    "calls sample_end = token_request # sample_gets @ [follow_a, follow_b, follow_c]"
    by (simp_all add: sample_run_def start_world_def sample_end_def)
  from c e have r: "rqs = sample_gets @ [follow_a, follow_b, follow_c]" by simp
  from h g have "list_all (\<lambda>rq. map_of (headers rq) ''Authorization'' = Some ''Bearer T1'') rqs"
    by simp
  with r have "map (\<lambda>rq. map_of (headers rq) ''Authorization'')
     (sample_gets @ [follow_a, follow_b, follow_c]) =
     [Some ''Bearer T1'', Some ''Bearer T1'', Some ''Bearer T1'', Some ''Bearer T1'',
      Some ''Bearer T1'']"
    by (simp add: sample_gets_def)
  with e show ?thesis
    using sample_run_main by simp
qed

section \<open>A user record without id\<close>

text \<open>
  C10. If a fetched user record has no \<^verbatim>\<open>id\<close> field, whatever else it holds, the run ends
  with \<^verbatim>\<open>KeyError\<close> at that record: the users before it have been processed, and neither
  that record nor any later one gets a progress line or a follow request. A record with an
  \<^verbatim>\<open>id\<close> and no \<^verbatim>\<open>userPrincipalName\<close> is processed, with the \<^verbatim>\<open>id\<close> as its display name.
\<close>

theorem missing_id_aborts_run:
  assumes "replies w = Responds tr ## (map Responds pages @- (map Responds rs @- rest))"
    and "token_response tr tok"
    and "pages \<noteq> []" and "\<forall>r\<in>set pages. listing_page r"
    and "\<forall>r\<in>set (butlast pages). has_next_link r" and "\<not> has_next_link (last pages)"
    and "concat (map page_items pages) = pre @ JObj kv # post"
    and "map_of kv ''id'' = None"
    and "length rs = length pre" and "\<forall>user\<in>set pre. has_id user"
    and "map_of kv1 ''id'' = Some v" and "map_of kv1 ''userPrincipalName'' = None"
    and "shd (replies w1) = Responds r"
  shows "main py_str w =
           Some (Inl (KeyError ''id''),
                 w\<lparr>replies := rest,
                   calls := calls w @ token_request #
                     map (\<lambda>v. get_request v (bearer_headers py_str tok))
                       (JStr users_url # map next_link (butlast pages)) @
                     map (\<lambda>user. follow_request py_str (user_id user) SPECIFIC_SITE_ID
                                  (bearer_headers py_str tok)) pre,
                   stdout := stdout w @ found_line py_str (pre @ JObj kv # post) #
                     concat (map2 (user_lines py_str) pre rs)\<rparr>)
         \<and> follow_users py_str hdrs [JObj kv1] w1 =
           (Inr (),
            w1\<lparr>replies := stl (replies w1),
               calls := calls w1 @ [follow_request py_str v SPECIFIC_SITE_ID hdrs],
               stdout := stdout w1 @ [processing_line py_str v, report_line py_str v r]\<rparr>)"
proof -
  let ?hdrs = "bearer_headers py_str tok"
  let ?w2 = "w\<lparr>replies := map Responds rs @- rest,
                calls := calls w @ token_request #
                  map (\<lambda>v. get_request v ?hdrs) (JStr users_url # map next_link (butlast pages)),
                stdout := stdout w @ [found_line py_str (concat (map page_items pages))]\<rparr>"
  have m: "main py_str w = Some (follow_users py_str ?hdrs (concat (map page_items pages)) ?w2)"
    by (rule main_listing [OF assms(1,2,3,4,5,6)])
  then have m': "main py_str w = Some (follow_users py_str ?hdrs (pre @ JObj kv # post) ?w2)"
    by (simp only: assms(7))
  have r2: "replies ?w2 = map Responds rs @- rest" by simp
  have k: "subscript (JObj kv) ''id'' = Inl (KeyError ''id'')"
    using assms(8) by simp
  note f = follow_users_no_id [OF assms(9,10) r2 k, of py_str ?hdrs post]
  have run: "main py_str w =
           Some (Inl (KeyError ''id''),
                 w\<lparr>replies := rest,
                   calls := calls w @ token_request #
                     map (\<lambda>v. get_request v ?hdrs)
                       (JStr users_url # map next_link (butlast pages)) @
                     map (\<lambda>user. follow_request py_str (user_id user) SPECIFIC_SITE_ID ?hdrs) pre,
                   stdout := stdout w @ found_line py_str (pre @ JObj kv # post) #
                     concat (map2 (user_lines py_str) pre rs)\<rparr>)"
    by (simp only: m' f) (simp add: assms(7))
  have h: "has_id (JObj kv1)" using assms(11) by (simp add: has_id_def)
  have r1: "replies w1 = Responds r ## stl (replies w1)"
    using assms(13) by (cases "replies w1") simp
  have one: "follow_users py_str hdrs [JObj kv1] w1 =
           (Inr (),
            w1\<lparr>replies := stl (replies w1),
               calls := calls w1 @ [follow_request py_str v SPECIFIC_SITE_ID hdrs],
               stdout := stdout w1 @ [processing_line py_str v, report_line py_str v r]\<rparr>)"
    by (simp only: follow_users_step [OF h r1])
      (simp add: user_id_def user_name_def user_lines_def assms(11,12))
  from run one show ?thesis by (intro conjI)
qed

theorem missing_id_aborts_run_witness:
  "main sample_str
     (start_world [Responds token_ok, Responds page_one, Responds page_without_id,
        Responds (status_only 204 []), Responds (status_only 403 ''Forbidden'')]) =
     Some (Inl (KeyError ''id''),
           \<lparr>replies = sconst Fails,
            calls = token_request # sample_gets @ [follow_a, follow_b],
            stdout =
              [''Found 4 users'',
               processing_line sample_str (JStr ''a@x.com''),
               success_line sample_str (JStr ''u1'') SPECIFIC_SITE_ID,
               processing_line sample_str (JStr ''b@x.com''),
               failure_line sample_str (JStr ''u2'') ''Forbidden'']\<rparr>) \<and>
   follow_users sample_str sample_headers [user_c] (start_world [Responds (status_only 204 [])]) =
     (Inr (),
      \<lparr>replies = sconst Fails,
       calls = [follow_c],
       stdout = [processing_line sample_str (JStr ''u3''),
                 success_line sample_str (JStr ''u3'') SPECIFIC_SITE_ID]\<rparr>)"
  using missing_id_aborts_run [of
      "start_world [Responds token_ok, Responds page_one, Responds page_without_id,
         Responds (status_only 204 []), Responds (status_only 403 ''Forbidden'')]"
      token_ok "[page_one, page_without_id]"
      "[status_only 204 [], status_only 403 ''Forbidden'']" "sconst Fails" "JStr ''T1''"
      "[user_a, user_b]" "[(''userPrincipalName'', JStr ''d@x.com'')]" "[user_c]"
      "[(''id'', JStr ''u3'')]" "JStr ''u3''" "start_world [Responds (status_only 204 [])]"
      "status_only 204 []" sample_str sample_headers]
  by (simp add: sample_defs user_without_id_def page_without_id_def str_nat.simps)

end
